theory Spec2Isabelle
  imports Main
begin

section \<open>Data model\<close>

text \<open>Python \<open>bytes\<close> values (addresses, raw byte strings).\<close>

type_synonym bytes = string

text \<open>
  Modelled from the spec: the class \<open>BlockHeader\<close> (evm/rlp/headers.py) is not among the
  source files. The spec's data model gives a header as the immutable record
  \<open>{hash, parent_hash, block_number, difficulty, timestamp, coinbase, gas_limit, ...}\<close> and
  says of the hash: "Hash is derived from content; two headers with equal hash are equal."
  A hash is therefore a value built from the content it digests (\<open>Keccak\<close>, one argument per
  header field), or a raw 32-byte value that is no header's hash (\<open>Bytes32\<close>, such as the
  parent hash of a genesis header). The attribute \<open>header.hash\<close> is the function \<open>hash\<close>.
\<close>

datatype hash32 =
    Bytes32 bytes
  | Keccak hash32 int int int bytes int

record BlockHeader =
  parent_hash :: hash32
  block_number :: int
  difficulty :: int
  timestamp :: int
  coinbase :: bytes
  gas_limit :: int

definition hash :: "BlockHeader \<Rightarrow> hash32" where
  "hash h =
     Keccak (parent_hash h) (block_number h) (difficulty h) (timestamp h) (coinbase h)
       (gas_limit h)"

text \<open>Every exception the modelled code can raise is a value.\<close>

datatype error =
    AssertionError
  | AttributeError
  | HeaderNotFound
  | CanonicalHeadNotFound
  | StoreWriteError
  | ChainLinkageError
  | TimeoutError

text \<open>
  Modelled from the spec: the Header Store (the \<open>headerdb\<close> objects of the tests) is an
  external collaborator whose code is not among the source files. The spec describes it as
  indexed chain storage with the queries get-canonical-head, get-header-by-number,
  get-header-by-hash and get-chain-score(hash). The record holds the headers by hash, the
  score of each stored hash, the number index of the canonical chain and the hash of the
  canonical head.
\<close>

record HeaderStore =
  headers :: "hash32 \<rightharpoonup> BlockHeader"
  scores :: "hash32 \<rightharpoonup> int"
  canonical :: "int \<rightharpoonup> hash32"
  head_hash :: "hash32 option"

definition get_block_header_by_hash :: "HeaderStore \<Rightarrow> hash32 \<Rightarrow> error + BlockHeader" where
  "get_block_header_by_hash db h =
     (case headers db h of None \<Rightarrow> Inl HeaderNotFound | Some x \<Rightarrow> Inr x)"

definition get_canonical_block_header_by_number :: "HeaderStore \<Rightarrow> int \<Rightarrow> error + BlockHeader" where
  "get_canonical_block_header_by_number db n =
     (case canonical db n of
        None \<Rightarrow> Inl HeaderNotFound
      | Some h \<Rightarrow> get_block_header_by_hash db h)"

definition get_canonical_head :: "HeaderStore \<Rightarrow> error + BlockHeader" where
  "get_canonical_head db =
     (case head_hash db of
        None \<Rightarrow> Inl CanonicalHeadNotFound
      | Some h \<Rightarrow> get_block_header_by_hash db h)"

definition get_score :: "HeaderStore \<Rightarrow> hash32 \<Rightarrow> error + int" where
  "get_score db h = (case scores db h of None \<Rightarrow> Inl HeaderNotFound | Some s \<Rightarrow> Inr s)"

section \<open>LES messages\<close>

text \<open>
  The anchor of a header query is a Python value that is either an \<open>int\<close> or a
  \<open>bytes\<close> hash; \<open>isinstance(block_number, int)\<close> tells them apart.
\<close>

datatype number_or_hash = Number int | Hash hash32

text \<open>
  Modelled from the spec: the query object of a GetBlockHeaders message is declared in
  p2p/les.py, which is not among the source files. The spec gives its structure as
  \<open>{block_number_or_hash, max_headers, skip, reverse}\<close>.
\<close>

record HeaderRequest =
  block_number_or_hash :: number_or_hash
  max_headers :: int
  skip :: int
  reverse :: bool

text \<open>The decoded message \<open>msg\<close> of a GetBlockHeaders command: \<open>msg['request_id']\<close>, \<open>msg['query']\<close>.\<close>

record GetBlockHeadersMsg =
  request_id :: int
  query :: HeaderRequest

text \<open>
  The \<open>data\<close> dictionary that \<open>LESProtocolServer.send_block_headers\<close> encodes and sends
  (keys \<open>request_id\<close>, \<open>headers\<close>, \<open>buffer_value\<close>; the prefix keeps the field names apart
  from those of the other records).
\<close>

record BlockHeadersData =
  bh_request_id :: int
  bh_headers :: "BlockHeader list"
  bh_buffer_value :: int

definition send_block_headers :: "BlockHeader list \<Rightarrow> int \<Rightarrow> int \<Rightarrow> BlockHeadersData" where
  "send_block_headers hs buffer_value rid =
     \<lparr>bh_request_id = rid, bh_headers = hs, bh_buffer_value = buffer_value\<rparr>"

section \<open>The serving peer of the tests\<close>

text \<open>
  \<open>LESPeerServer\<close>: the attribute \<open>_head_number\<close> (here \<open>priv_head_number\<close>, \<open>None\<close> until
  an announcement sets it) and the header database the peer serves from.
\<close>

record LESPeerServer =
  priv_head_number :: "int option"
  headerdb :: HeaderStore

definition head_number :: "LESPeerServer \<Rightarrow> error + int" where
  "head_number self =
     (case priv_head_number self of
        Some n \<Rightarrow> Inr n
      | None \<Rightarrow>
          (case get_canonical_head (headerdb self) of
             Inl e \<Rightarrow> Inl e
           | Inr h \<Rightarrow> Inr (block_number h)))"

text \<open>Python's \<open>range(a, b)\<close> over integers.\<close>

definition py_range :: "int \<Rightarrow> int \<Rightarrow> int list" where
  "py_range a b = [a..b - 1]"

text \<open>
  \<open>tuple(f(i) for i in block_numbers)\<close>: the lookups run in order and the first one that
  raises ends the evaluation.
\<close>

fun collect :: "('a \<Rightarrow> error + 'b) \<Rightarrow> 'a list \<Rightarrow> error + 'b list" where
  "collect f [] = Inr []"
| "collect f (x # xs) =
     (case f x of
        Inl e \<Rightarrow> Inl e
      | Inr y \<Rightarrow> (case collect f xs of Inl e \<Rightarrow> Inl e | Inr ys \<Rightarrow> Inr (y # ys)))"

text \<open>
  The attribute read \<open>query.block\<close> of the reverse branch. The query object has the four
  fields listed above and no attribute named \<open>block\<close>, so the read raises AttributeError.
\<close>

definition query_block :: "HeaderRequest \<Rightarrow> error + int" where
  "query_block q = Inl AttributeError"

text \<open>
  \<open>LESPeerServer.handle_get_block_headers\<close>. The result is the exception raised, or the
  BlockHeaders data handed to \<open>sub_proto.send_block_headers\<close>. The source's locals
  \<open>block_number\<close> and \<open>end\<close> are \<open>anchor\<close> and \<open>stop\<close> here (the first is the name of a
  header field, the second a keyword).
\<close>

definition handle_get_block_headers ::
    "LESPeerServer \<Rightarrow> GetBlockHeadersMsg \<Rightarrow> error + BlockHeadersData" where
  "handle_get_block_headers self msg =
     (let q = query msg in
      case block_number_or_hash q of
        Hash _ \<Rightarrow> Inl AssertionError
      | Number anchor \<Rightarrow>
          (case
             (if reverse q then
                (case query_block q of
                   Inl e \<Rightarrow> Inl e
                 | Inr b \<Rightarrow>
                     (let start = max 0 (b - max_headers q)
                      in Inr (rev (py_range (start + 1) (anchor + 1)))))
              else
                (case head_number self of
                   Inl e \<Rightarrow> Inl e
                 | Inr hn \<Rightarrow>
                     (let stop = min (hn + 1) (anchor + max_headers q)
                      in Inr (py_range anchor stop))))
           of
             Inl e \<Rightarrow> Inl e
           | Inr block_numbers \<Rightarrow>
               (case collect (get_canonical_block_header_by_number (headerdb self)) block_numbers of
                  Inl e \<Rightarrow> Inl e
                | Inr hs \<Rightarrow> Inr (send_block_headers hs 0 (request_id msg)))))"

section \<open>Command line of trinity\<close>

text \<open>The attributes of the parsed arguments that \<open>main\<close> reads before building the chain configuration.\<close>

record Namespace =
  ropsten :: bool
  light :: bool

text \<open>
  The first two statements of \<open>main\<close>. The constants \<open>ROPSTEN\<close> and \<open>SYNC_LIGHT\<close> come from
  trinity/constants.py, which is not among the source files: they are parameters here.
\<close>

definition chain_identifier :: "'c \<Rightarrow> Namespace \<Rightarrow> 'c" where
  "chain_identifier ROPSTEN args = (if ropsten args then ROPSTEN else ROPSTEN)"

definition sync_mode :: "'s \<Rightarrow> Namespace \<Rightarrow> 's" where
  "sync_mode SYNC_LIGHT args = (if light args then SYNC_LIGHT else SYNC_LIGHT)"

section \<open>Writing to the Header Store\<close>

text \<open>
  Modelled from the spec: a store that holds nothing yet (the \<open>FakeAsyncChainDB(MemoryDB())\<close> of
  the fixture, before any header is persisted).
\<close>

definition empty_store :: HeaderStore where
  "empty_store =
     \<lparr>headers = Map.empty, scores = Map.empty, canonical = Map.empty, head_hash = None\<rparr>"

text \<open>
  Modelled from the spec: the number index of the canonical chain that ends at a header \<open>h\<close>,
  read off by walking \<open>parent_hash\<close> links through the stored headers. The walk takes as many
  steps as the block number of \<open>h\<close>, which brings it to genesis (block number 0).
\<close>

fun chain_index :: "(hash32 \<rightharpoonup> BlockHeader) \<Rightarrow> BlockHeader \<Rightarrow> nat \<Rightarrow> (int \<rightharpoonup> hash32)" where
  "chain_index hs h 0 = [block_number h \<mapsto> hash h]"
| "chain_index hs h (Suc k) =
     (case hs (parent_hash h) of
        None \<Rightarrow> Map.empty
      | Some p \<Rightarrow> chain_index hs p k)(block_number h \<mapsto> hash h)"

text \<open>
  Modelled from the spec: making a header the canonical head "atomically extends/replaces the
  canonical chain": the number index becomes that of the chain ending at the header.
\<close>

definition set_as_canonical_chain_head :: "HeaderStore \<Rightarrow> BlockHeader \<Rightarrow> HeaderStore" where
  "set_as_canonical_chain_head db h =
     db\<lparr>canonical := chain_index (headers db) h (nat (block_number h)),
        head_hash := Some (hash h)\<rparr>"

text \<open>
  Modelled from the spec: \<open>persist_header(header)\<close>, "atomic, recomputes canonical chain by
  score". The score of a header is the "total cumulative difficulty of the chain ending at"
  it: the score of its parent plus its own difficulty, and its own difficulty for a genesis
  header (block number 0). The header becomes the canonical head when there is no head yet or
  its score is higher than the head's ("higher wins; no other ordering applies"). A header
  whose parent has no score in the store cannot be written (\<open>StoreWriteError\<close>).
\<close>

definition persist_header :: "HeaderStore \<Rightarrow> BlockHeader \<Rightarrow> error + HeaderStore" where
  "persist_header db h =
     (case (if block_number h = 0 then Inr 0 else get_score db (parent_hash h)) of
        Inl e \<Rightarrow> Inl StoreWriteError
      | Inr parent_score \<Rightarrow>
          (let score = parent_score + difficulty h;
               db' = db\<lparr>headers := (headers db)(hash h \<mapsto> h),
                         scores := (scores db)(hash h \<mapsto> score)\<rparr>
           in case head_hash db of
                None \<Rightarrow> Inr (set_as_canonical_chain_head db' h)
              | Some hh \<Rightarrow>
                  (case get_score db hh of
                     Inl e \<Rightarrow> Inl StoreWriteError
                   | Inr head_score \<Rightarrow>
                       if head_score < score then Inr (set_as_canonical_chain_head db' h)
                       else Inr db')))"

section \<open>The Sync Engine: validating and committing a batch\<close>

text \<open>
  Modelled from the spec (Sync Engine, step 4, Validating): "headers must be contiguous by
  block_number and each header's parent_hash must equal the previous header's hash (the first
  header's parent must equal a hash already present in the Header Store)". \<open>linked p hs\<close>
  checks a batch \<open>hs\<close> against the header \<open>p\<close> that precedes it; for the first header of a
  batch the preceding header is the stored header that its \<open>parent_hash\<close> names.
\<close>

fun linked :: "BlockHeader \<Rightarrow> BlockHeader list \<Rightarrow> bool" where
  "linked p [] = True"
| "linked p (h # hs) =
     (block_number h = block_number p + 1 \<and> parent_hash h = hash p \<and> linked h hs)"

definition validate_batch :: "HeaderStore \<Rightarrow> BlockHeader list \<Rightarrow> bool" where
  "validate_batch db batch =
     (case batch of
        [] \<Rightarrow> True
      | h # hs \<Rightarrow>
          (case headers db (parent_hash h) of
             None \<Rightarrow> False
           | Some p \<Rightarrow> linked p batch))"

text \<open>
  Modelled from the spec (Sync Engine, step 5, Committing): "valid batches are persisted to
  the Header Store in increasing-number order", and "duplicate headers are idempotent no-ops
  at commit time (same hash already present \<Rightarrow> skip)".
\<close>

definition commit_header :: "HeaderStore \<Rightarrow> BlockHeader \<Rightarrow> error + HeaderStore" where
  "commit_header db h =
     (if headers db (hash h) \<noteq> None then Inr db else persist_header db h)"

fun commit :: "HeaderStore \<Rightarrow> BlockHeader list \<Rightarrow> error + HeaderStore" where
  "commit db [] = Inr db"
| "commit db (h # hs) =
     (case commit_header db h of
        Inl e \<Rightarrow> Inl e
      | Inr db' \<Rightarrow> commit db' hs)"

text \<open>
  Modelled from the spec: a batch that fails validation is rejected (\<open>ChainLinkageError\<close>) and
  nothing of it is persisted; a valid batch is committed.
\<close>

definition validate_and_commit :: "HeaderStore \<Rightarrow> BlockHeader list \<Rightarrow> error + HeaderStore" where
  "validate_and_commit db batch =
     (if validate_batch db batch then commit db batch else Inl ChainLinkageError)"

text \<open>
  Modelled from the spec: the Header Store of a client changes only when the Sync Engine
  commits a batch it has validated. Whatever the announcements and the peers' replies, a
  sequence of syncs therefore acts on the store as a sequence of batches, each validated and
  committed, or rejected and leaving the store as it was.
\<close>

fun sync_batches :: "HeaderStore \<Rightarrow> BlockHeader list list \<Rightarrow> HeaderStore" where
  "sync_batches db [] = db"
| "sync_batches db (b # bs) =
     (case validate_and_commit db b of
        Inl e \<Rightarrow> sync_batches db bs
      | Inr db' \<Rightarrow> sync_batches db' bs)"

section \<open>Announcements and the test helpers\<close>






section \<open>The Sync Engine: processing an announcement\<close>







section \<open>The test scenarios\<close>






section \<open>Well-formed stores and sample data\<close>

text \<open>
  The canonical index of a store is complete up to a number \<open>hn\<close>: every number from
  genesis (0) to \<open>hn\<close> has a canonical header, and that header carries the number.
\<close>

definition canonical_upto :: "HeaderStore \<Rightarrow> int \<Rightarrow> bool" where
  "canonical_upto db hn =
     list_all (\<lambda>i. case get_canonical_block_header_by_number db i of
                      Inl _ \<Rightarrow> False
                    | Inr h \<Rightarrow> block_number h = i) [0..hn]"

text \<open>
  The stored headers are well formed: each is stored under its hash, has a block number of 0
  or more, and unless it is a genesis header its parent is stored and has the preceding
  block number.
\<close>

definition wf_headers :: "(hash32 \<rightharpoonup> BlockHeader) \<Rightarrow> bool" where
  "wf_headers hs \<longleftrightarrow>
     (\<forall>k x. hs k = Some x \<longrightarrow>
        hash x = k \<and> 0 \<le> block_number x \<and>
        (block_number x = 0 \<or>
         (\<exists>p. hs (parent_hash x) = Some p \<and> block_number p = block_number x - 1)))"

text \<open>
  A store is well formed: its headers are, every stored header has a score, and the number
  index is that of the chain ending at the canonical head.
\<close>

definition wf_store :: "HeaderStore \<Rightarrow> bool" where
  "wf_store db \<longleftrightarrow>
     wf_headers (headers db) \<and>
     (\<forall>k. headers db k \<noteq> None \<longrightarrow> scores db k \<noteq> None) \<and>
     (\<exists>hd. head_hash db = Some (hash hd) \<and> headers db (hash hd) = Some hd \<and>
           canonical db = chain_index (headers db) hd (nat (block_number hd)))"





text \<open>Sample headers, a store holding a chain of four headers, a peer serving it, and requests.\<close>

definition mk_header :: "hash32 \<Rightarrow> int \<Rightarrow> int \<Rightarrow> BlockHeader" where
  "mk_header p n d =
     \<lparr>parent_hash = p, block_number = n, difficulty = d, timestamp = n,
      coinbase = ''c'', gas_limit = 5000\<rparr>"

definition hdr0 :: BlockHeader where
  "hdr0 = mk_header (Bytes32 []) 0 1"

definition hdr1 :: BlockHeader where
  "hdr1 = mk_header (hash hdr0) 1 1"

definition hdr2 :: BlockHeader where
  "hdr2 = mk_header (hash hdr1) 2 1"

definition hdr3 :: BlockHeader where
  "hdr3 = mk_header (hash hdr2) 3 1"


definition db3 :: HeaderStore where
  "db3 =
     \<lparr>headers = [hash hdr0 \<mapsto> hdr0, hash hdr1 \<mapsto> hdr1, hash hdr2 \<mapsto> hdr2,
                 hash hdr3 \<mapsto> hdr3],
      scores = [hash hdr0 \<mapsto> 1, hash hdr1 \<mapsto> 2, hash hdr2 \<mapsto> 3, hash hdr3 \<mapsto> 4],
      canonical = [0 \<mapsto> hash hdr0, 1 \<mapsto> hash hdr1, 2 \<mapsto> hash hdr2, 3 \<mapsto> hash hdr3],
      head_hash = Some (hash hdr3)\<rparr>"

definition srv3 :: LESPeerServer where
  "srv3 = \<lparr>priv_head_number = None, headerdb = db3\<rparr>"

definition req :: "int \<Rightarrow> number_or_hash \<Rightarrow> int \<Rightarrow> bool \<Rightarrow> GetBlockHeadersMsg" where
  "req rid a m r =
     \<lparr>request_id = rid,
      query = \<lparr>block_number_or_hash = a, max_headers = m, skip = 0, reverse = r\<rparr>\<rparr>"

section \<open>The GetBlockHeaders handler\<close>

lemma collect_all_ok:
  "\<forall>x\<in>set xs. \<exists>y. f x = Inr y \<Longrightarrow> \<exists>ys. collect f xs = Inr ys \<and> map Inr ys = map f xs"
proof (induction xs)
  case Nil
  then show ?case by simp
next
  case (Cons x xs)
  then obtain y where y: "f x = Inr y" by auto
  from Cons obtain ys where ys: "collect f xs = Inr ys" "map Inr ys = map f xs" by auto
  show ?case using y ys by simp
qed

lemma canonical_uptoD:
  assumes "canonical_upto db hn" "0 \<le> i" "i \<le> hn"
  shows "\<exists>h. get_canonical_block_header_by_number db i = Inr h \<and> block_number h = i"
proof -
  have "i \<in> set [0..hn]" using assms(2,3) by simp
  with assms(1) have "case get_canonical_block_header_by_number db i of
                        Inl _ \<Rightarrow> False | Inr h \<Rightarrow> block_number h = i"
    unfolding canonical_upto_def list_all_iff by blast
  then show ?thesis by (cases "get_canonical_block_header_by_number db i") auto
qed

lemma head_number_srv3: "head_number srv3 = Inr 3"
  by (simp add: head_number_def srv3_def db3_def get_canonical_head_def
      get_block_header_by_hash_def hdr3_def mk_header_def)

lemma canonical_upto_db3: "canonical_upto db3 3"
  by code_simp

text \<open>
  C6. A forward request (\<open>reverse = false\<close>, \<open>skip = 0\<close>) anchored at a block number \<open>n\<close>
  between genesis and the server's head number \<open>hn\<close>, served from a store whose canonical
  index is complete up to \<open>hn\<close>, is answered with exactly the canonical headers numbered
  \<open>n\<close> through \<open>min hn (n + max_headers - 1)\<close>, in increasing order of block number
  and without gaps.
\<close>

theorem forward_request_returns_canonical_range:
  assumes "block_number_or_hash (query msg) = Number n"
    and "\<not> reverse (query msg)"
    and "skip (query msg) = 0"
    and "head_number self = Inr hn"
    and "0 \<le> n" and "n \<le> hn"
    and "canonical_upto (headerdb self) hn"
  shows "\<exists>hs. handle_get_block_headers self msg =
                Inr \<lparr>bh_request_id = request_id msg, bh_headers = hs, bh_buffer_value = 0\<rparr>
            \<and> map Inr hs = map (get_canonical_block_header_by_number (headerdb self))
                             [n..min hn (n + max_headers (query msg) - 1)]
            \<and> map block_number hs = [n..min hn (n + max_headers (query msg) - 1)]"
proof -
  let ?m = "max_headers (query msg)"
  let ?ns = "[n..min hn (n + ?m - 1)]"
  let ?f = "get_canonical_block_header_by_number (headerdb self)"
  have rng: "py_range n (min (hn + 1) (n + ?m)) = ?ns"
    by (simp add: py_range_def min_def)
  have ok: "\<forall>i\<in>set ?ns. \<exists>h. ?f i = Inr h \<and> block_number h = i"
    using canonical_uptoD [OF assms(7)] assms(5) by auto
  then have "\<forall>i\<in>set ?ns. \<exists>h. ?f i = Inr h" by blast
  from collect_all_ok [OF this] obtain hs where
    hs: "collect ?f ?ns = Inr hs" "map Inr hs = map ?f ?ns" by blast
  have len: "length hs = length ?ns" using hs(2) by (metis length_map)
  have nums: "map block_number hs = ?ns"
  proof (rule nth_equalityI)
    show "length (map block_number hs) = length ?ns" using len by simp
  next
    fix k assume k: "k < length (map block_number hs)"
    then have k': "k < length ?ns" using len by simp
    have "Inr (hs ! k) = ?f (?ns ! k)"
      using hs(2) k k' by (metis length_map nth_map)
    moreover obtain h where "?f (?ns ! k) = Inr h" "block_number h = ?ns ! k"
      using ok k' nth_mem by blast
    ultimately show "map block_number hs ! k = ?ns ! k" using k by simp
  qed
  have "handle_get_block_headers self msg =
          Inr \<lparr>bh_request_id = request_id msg, bh_headers = hs, bh_buffer_value = 0\<rparr>"
    using assms(1,2,4) rng hs(1)
    by (simp add: handle_get_block_headers_def send_block_headers_def)
  with hs(2) nums show ?thesis by blast
qed

theorem forward_request_returns_canonical_range_witness:
  "block_number_or_hash (query (req 7 (Number 1) 2 False)) = Number 1
   \<and> \<not> reverse (query (req 7 (Number 1) 2 False))
   \<and> skip (query (req 7 (Number 1) 2 False)) = 0
   \<and> head_number srv3 = Inr 3 \<and> (0::int) \<le> 1 \<and> (1::int) \<le> 3
   \<and> canonical_upto (headerdb srv3) 3
   \<and> (\<exists>hs. handle_get_block_headers srv3 (req 7 (Number 1) 2 False) =
                Inr \<lparr>bh_request_id = 7, bh_headers = hs, bh_buffer_value = 0\<rparr>
            \<and> map block_number hs = [1, 2])"
proof -
  let ?msg = "req 7 (Number 1) 2 False"
  have a: "block_number_or_hash (query ?msg) = Number 1" by (simp add: req_def)
  have b: "\<not> reverse (query ?msg)" by (simp add: req_def)
  have c: "skip (query ?msg) = 0" by (simp add: req_def)
  have d: "canonical_upto (headerdb srv3) 3" using canonical_upto_db3 by (simp add: srv3_def)
  have e: "[1..min 3 (1 + max_headers (query ?msg) - 1)] = [1, 2::int]"
    by (simp add: req_def upto_rec1)
  have f: "request_id ?msg = 7" by (simp add: req_def)
  from forward_request_returns_canonical_range [OF a b c head_number_srv3 _ _ d]
  show ?thesis using a b c d head_number_srv3 unfolding e f by auto
qed

text \<open>
  C7. The reverse branch reads \<open>query.block\<close>, an attribute the query object does not have:
  a reverse request for two headers back from block 2 of a four-header chain raises
  AttributeError, and no BlockHeaders response is sent.
\<close>

theorem reverse_request_raises:
  "handle_get_block_headers srv3 (req 7 (Number 2) 2 True) = Inl AttributeError"
  by (simp add: handle_get_block_headers_def req_def query_block_def)

text \<open>
  C8. A request whose anchor is a hash fails the handler's assertion that the anchor is an
  integer: the handler raises AssertionError and sends no BlockHeaders response.
\<close>

theorem hash_anchor_fails_assertion:
  "block_number_or_hash (query msg) = Hash h \<Longrightarrow>
   handle_get_block_headers self msg = Inl AssertionError"
  by (simp add: handle_get_block_headers_def)

theorem hash_anchor_fails_assertion_witness:
  "block_number_or_hash (query (req 7 (Hash (hash hdr1)) 2 False)) = Hash (hash hdr1)
   \<and> handle_get_block_headers srv3 (req 7 (Hash (hash hdr1)) 2 False) = Inl AssertionError"
  using hash_anchor_fails_assertion [of "req 7 (Hash (hash hdr1)) 2 False" "hash hdr1" srv3]
  by (simp add: req_def)

text \<open>
  C9. A forward request anchored at a block number strictly above the server's head number
  is answered with a BlockHeaders message that has an empty header list and the request's
  \<open>request_id\<close>; the handler raises nothing.
\<close>

theorem anchor_above_head_empty_reply:
  assumes "block_number_or_hash (query msg) = Number n"
    and "\<not> reverse (query msg)"
    and "head_number self = Inr hn"
    and "hn < n"
  shows "handle_get_block_headers self msg =
           Inr \<lparr>bh_request_id = request_id msg, bh_headers = [], bh_buffer_value = 0\<rparr>"
proof -
  have "py_range n (min (hn + 1) (n + max_headers (query msg))) = []"
    using assms(4) by (simp add: py_range_def)
  then show ?thesis
    using assms(1-3) by (simp add: handle_get_block_headers_def send_block_headers_def)
qed

theorem anchor_above_head_empty_reply_witness:
  "block_number_or_hash (query (req 7 (Number 4) 20 False)) = Number 4
   \<and> \<not> reverse (query (req 7 (Number 4) 20 False))
   \<and> head_number srv3 = Inr 3 \<and> (3::int) < 4
   \<and> handle_get_block_headers srv3 (req 7 (Number 4) 20 False) =
        Inr \<lparr>bh_request_id = 7, bh_headers = [], bh_buffer_value = 0\<rparr>"
proof -
  let ?msg = "req 7 (Number 4) 20 False"
  have a: "block_number_or_hash (query ?msg) = Number 4" by (simp add: req_def)
  have b: "\<not> reverse (query ?msg)" by (simp add: req_def)
  have f: "request_id ?msg = 7" by (simp add: req_def)
  from anchor_above_head_empty_reply [OF a b head_number_srv3]
  show ?thesis using a b head_number_srv3 unfolding f by simp
qed

section \<open>Chain and sync mode selected by main\<close>

text \<open>
  C10. Whatever the parsed arguments, \<open>main\<close> selects the Ropsten chain identifier and the
  light sync mode: both branches of each flag test assign the same constant.
\<close>

theorem main_selects_ropsten_light:
  "chain_identifier ROPSTEN args = ROPSTEN \<and> sync_mode SYNC_LIGHT args = SYNC_LIGHT"
  by (simp add: chain_identifier_def sync_mode_def)

section \<open>Facts about committing\<close>

lemma persist_genesis:
  "block_number g = 0 \<Longrightarrow> \<exists>db0. persist_header empty_store g = Inr db0"
  by (simp add: persist_header_def Let_def empty_store_def)

lemma hdr_numbers:
  "block_number hdr0 = 0" "block_number hdr1 = 1" "block_number hdr2 = 2" "block_number hdr3 = 3"
  by (simp_all add: hdr0_def hdr1_def hdr2_def hdr3_def mk_header_def)

lemma hdr_parents:
  "parent_hash hdr1 = hash hdr0" "parent_hash hdr2 = hash hdr1" "parent_hash hdr3 = hash hdr2"
  by (simp_all add: hdr1_def hdr2_def hdr3_def mk_header_def)

lemma persist_header_adds:
  "persist_header db h = Inr db' \<Longrightarrow> headers db' = (headers db)(hash h \<mapsto> h)"
  by (auto simp: persist_header_def Let_def set_as_canonical_chain_head_def
      split: sum.splits option.splits if_splits)

lemma commit_header_present:
  "commit_header db h = Inr db' \<Longrightarrow> headers db' (hash h) \<noteq> None"
  by (auto simp: commit_header_def dest: persist_header_adds split: if_splits)

lemma commit_header_keeps:
  "commit_header db h = Inr db' \<Longrightarrow> headers db k = Some x \<Longrightarrow> headers db' k = Some x"
  by (auto simp: commit_header_def dest!: persist_header_adds split: if_splits)

lemma commit_keeps:
  "commit db hs = Inr db' \<Longrightarrow> headers db k = Some x \<Longrightarrow> headers db' k = Some x"
proof (induction hs arbitrary: db)
  case Nil
  then show ?case by simp
next
  case (Cons h hs)
  then obtain db1 where s: "commit_header db h = Inr db1" "commit db1 hs = Inr db'"
    by (auto split: sum.splits)
  from commit_header_keeps [OF s(1) Cons.prems(2)] Cons.IH [OF s(2)] show ?case by blast
qed

lemma commit_present:
  "commit db hs = Inr db' \<Longrightarrow> h \<in> set hs \<Longrightarrow> headers db' (hash h) \<noteq> None"
proof (induction hs arbitrary: db)
  case Nil
  then show ?case by simp
next
  case (Cons a hs)
  then obtain db1 where s: "commit_header db a = Inr db1" "commit db1 hs = Inr db'"
    by (auto split: sum.splits)
  show ?case
  proof (cases "h = a")
    case True
    from commit_header_present [OF s(1)] obtain x where "headers db1 (hash a) = Some x" by auto
    from commit_keeps [OF s(2) this] True show ?thesis by simp
  next
    case False
    with Cons.prems(2) have "h \<in> set hs" by simp
    from Cons.IH [OF s(2) this] show ?thesis .
  qed
qed

lemma commit_all_present:
  "\<forall>h\<in>set hs. headers db (hash h) \<noteq> None \<Longrightarrow> commit db hs = Inr db"
  by (induction hs) (auto simp: commit_header_def)

lemma linked_validate_mono:
  assumes "validate_batch db batch" and "\<And>k x. headers db k = Some x \<Longrightarrow> headers db' k = Some x"
  shows "validate_batch db' batch"
  using assms by (auto simp: validate_batch_def split: list.splits option.splits)

section \<open>Well-formed stores are preserved\<close>

lemma hash_inject: "hash a = hash b \<Longrightarrow> a = (b::BlockHeader)"
  by (cases a, cases b) (simp add: hash_def)

lemma wf_headers_parent:
  assumes "wf_headers hs" "hs k = Some x" "block_number x = int (Suc n)"
  shows "\<exists>p. hs (parent_hash x) = Some p \<and> block_number p = int n \<and> hash p = parent_hash x"
proof -
  from assms(1,2) have "block_number x = 0 \<or>
      (\<exists>p. hs (parent_hash x) = Some p \<and> block_number p = block_number x - 1)"
    unfolding wf_headers_def by blast
  with assms(3) obtain p where p: "hs (parent_hash x) = Some p" "block_number p = int n"
    by auto
  from assms(1) p(1) have "hash p = parent_hash x" unfolding wf_headers_def by blast
  with p show ?thesis by blast
qed

lemma chain_index_top: "chain_index hs h k (block_number h) = Some (hash h)"
  by (cases k) simp_all

lemma chain_index_links:
  assumes "wf_headers hs" "hs (hash h) = Some h" "block_number h = int k" "0 < n" "n \<le> int k"
  shows "\<exists>x p. chain_index hs h k n = Some (hash x) \<and> hs (hash x) = Some x
             \<and> chain_index hs h k (n - 1) = Some (hash p) \<and> hs (hash p) = Some p
             \<and> parent_hash x = hash p \<and> block_number x = n \<and> block_number p = n - 1"
  using assms(2-)
proof (induction k arbitrary: h)
  case 0
  then show ?case by simp
next
  case (Suc k)
  from wf_headers_parent [OF assms(1) Suc.prems(1,2)] obtain p where
    p: "hs (parent_hash h) = Some p" "block_number p = int k" "hash p = parent_hash h"
    by blast
  have php: "hs (hash p) = Some p" using p by simp
  show ?case
  proof (cases "n = int (Suc k)")
    case True
    have "chain_index hs h (Suc k) (n - 1) = Some (hash p)"
      using True p Suc.prems(2) chain_index_top [of hs p k] by simp
    moreover have "chain_index hs h (Suc k) n = Some (hash h)"
      using True Suc.prems(2) by simp
    ultimately show ?thesis
      using Suc.prems(1,2) php p True by (intro exI [of _ h] exI [of _ p]) simp
  next
    case False
    with Suc.prems(4) have le: "n \<le> int k" by simp
    from Suc.IH [OF php p(2) Suc.prems(3) le] obtain x q where
      xq: "chain_index hs p k n = Some (hash x)" "hs (hash x) = Some x"
          "chain_index hs p k (n - 1) = Some (hash q)" "hs (hash q) = Some q"
          "parent_hash x = hash q" "block_number x = n" "block_number q = n - 1"
      by blast
    have "chain_index hs h (Suc k) n = chain_index hs p k n"
      using p(1) Suc.prems(2) le by simp
    moreover have "chain_index hs h (Suc k) (n - 1) = chain_index hs p k (n - 1)"
      using p(1) Suc.prems(2) le by simp
    ultimately show ?thesis using xq by metis
  qed
qed

lemma chain_index_extend:
  assumes "wf_headers hs" "hs k' = None"
  shows "hs (hash h) = Some h \<Longrightarrow> block_number h = int k \<Longrightarrow>
         chain_index (hs(k' \<mapsto> v)) h k = chain_index hs h k"
proof (induction k arbitrary: h)
  case 0
  then show ?case by simp
next
  case (Suc k)
  from wf_headers_parent [OF assms(1) Suc.prems(1,2)] obtain p where
    p: "hs (parent_hash h) = Some p" "block_number p = int k" "hash p = parent_hash h"
    by blast
  have ne: "parent_hash h \<noteq> k'" using p(1) assms(2) by auto
  have php: "hs (hash p) = Some p" using p by simp
  from Suc.IH [OF php p(2)] show ?case using p(1) ne by simp
qed

lemma wf_headers_update:
  assumes wf: "wf_headers hs" and new: "hs (hash h) = None"
    and par: "hs (parent_hash h) = Some p" and num: "block_number h = block_number p + 1"
  shows "wf_headers (hs(hash h \<mapsto> h))"
  unfolding wf_headers_def
proof (intro allI impI)
  fix k x assume kx: "(hs(hash h \<mapsto> h)) k = Some x"
  have p0: "0 \<le> block_number p" using wf par unfolding wf_headers_def by blast
  have pne: "parent_hash h \<noteq> hash h" using new par by auto
  show "hash x = k \<and> 0 \<le> block_number x \<and>
        (block_number x = 0 \<or>
         (\<exists>q. (hs(hash h \<mapsto> h)) (parent_hash x) = Some q \<and> block_number q = block_number x - 1))"
  proof (cases "k = hash h")
    case True
    with kx have "x = h" by simp
    then show ?thesis using True p0 num par pne by simp
  next
    case False
    with kx have old: "hs k = Some x" by simp
    with wf have a: "hash x = k" "0 \<le> block_number x"
      and b: "block_number x = 0 \<or>
              (\<exists>q. hs (parent_hash x) = Some q \<and> block_number q = block_number x - 1)"
      unfolding wf_headers_def by blast+
    from b show ?thesis
    proof
      assume "block_number x = 0"
      then show ?thesis using a by simp
    next
      assume "\<exists>q. hs (parent_hash x) = Some q \<and> block_number q = block_number x - 1"
      then obtain q where q: "hs (parent_hash x) = Some q" "block_number q = block_number x - 1"
        by blast
      have "parent_hash x \<noteq> hash h" using q(1) new by auto
      then show ?thesis using a q by simp
    qed
  qed
qed

lemma persist_header_wf:
  assumes wf: "wf_store db" and new: "headers db (hash h) = None"
    and par: "headers db (parent_hash h) = Some p" and num: "block_number h = block_number p + 1"
  shows "\<exists>db'. persist_header db h = Inr db' \<and> wf_store db'"
proof -
  from wf have wfh: "wf_headers (headers db)"
    and sc: "\<And>k. headers db k \<noteq> None \<Longrightarrow> scores db k \<noteq> None"
    unfolding wf_store_def by blast+
  from wf obtain hd where hd: "head_hash db = Some (hash hd)" "headers db (hash hd) = Some hd"
    "canonical db = chain_index (headers db) hd (nat (block_number hd))"
    unfolding wf_store_def by blast
  have p0: "0 \<le> block_number p" using wfh par unfolding wf_headers_def by blast
  have hd0: "0 \<le> block_number hd" using wfh hd(2) unfolding wf_headers_def by blast
  have nz: "block_number h \<noteq> 0" using p0 num by simp
  obtain ps where ps: "scores db (parent_hash h) = Some ps" using sc [of "parent_hash h"] par by auto
  obtain hs where hs: "scores db (hash hd) = Some hs" using sc [of "hash hd"] hd(2) by auto
  let ?db1 = "db\<lparr>headers := (headers db)(hash h \<mapsto> h),
                  scores := (scores db)(hash h \<mapsto> ps + difficulty h)\<rparr>"
  have wf1: "wf_headers (headers ?db1)"
    using wf_headers_update [OF wfh new par num] by simp
  have sc1: "\<forall>k. headers ?db1 k \<noteq> None \<longrightarrow> scores ?db1 k \<noteq> None"
    using sc by simp
  have hne: "hash hd \<noteq> hash h" using hd(2) new by auto
  show ?thesis
  proof (cases "hs < ps + difficulty h")
    case True
    have eq: "persist_header db h = Inr (set_as_canonical_chain_head ?db1 h)"
      using nz ps hs hd(1) True by (simp add: persist_header_def get_score_def Let_def)
    have "wf_store (set_as_canonical_chain_head ?db1 h)"
      unfolding wf_store_def set_as_canonical_chain_head_def
      using wf1 sc1 by (auto intro!: exI [of _ h])
    with eq show ?thesis by blast
  next
    case False
    have eq: "persist_header db h = Inr ?db1"
      using nz ps hs hd(1) False by (simp add: persist_header_def get_score_def Let_def)
    have "chain_index ((headers db)(hash h \<mapsto> h)) hd (nat (block_number hd)) =
          chain_index (headers db) hd (nat (block_number hd))"
      using chain_index_extend [OF wfh new hd(2), of "nat (block_number hd)" h] hd0 by simp
    then have "wf_store ?db1"
      unfolding wf_store_def using wf1 sc1 hd hne by (auto intro!: exI [of _ hd])
    with eq show ?thesis by blast
  qed
qed

lemma commit_wf:
  "wf_store db \<Longrightarrow> headers db (hash p) = Some p \<Longrightarrow> linked p batch \<Longrightarrow>
   \<exists>db'. commit db batch = Inr db' \<and> wf_store db'"
proof (induction batch arbitrary: db p)
  case Nil
  then show ?case by simp
next
  case (Cons h hs)
  from Cons.prems(3) have num: "block_number h = block_number p + 1"
    and ph: "parent_hash h = hash p" and lk: "linked h hs" by simp_all
  show ?case
  proof (cases "headers db (hash h)")
    case None
    from persist_header_wf [OF Cons.prems(1) None _ num] Cons.prems(2) ph
    obtain db1 where db1: "persist_header db h = Inr db1" "wf_store db1" by auto
    have "headers db1 (hash h) = Some h" using persist_header_adds [OF db1(1)] by simp
    from Cons.IH [OF db1(2) this lk] obtain db' where "commit db1 hs = Inr db'" "wf_store db'"
      by blast
    then show ?thesis using None db1(1) by (simp add: commit_header_def)
  next
    case (Some x)
    from Cons.prems(1) Some have "hash x = hash h"
      unfolding wf_store_def wf_headers_def by blast
    then have "x = h" by (rule hash_inject)
    with Some have "headers db (hash h) = Some h" by simp
    from Cons.IH [OF Cons.prems(1) this lk] obtain db' where "commit db hs = Inr db'" "wf_store db'"
      by blast
    then show ?thesis using Some by (simp add: commit_header_def)
  qed
qed

lemma validate_and_commit_wf:
  assumes "wf_store db" "validate_and_commit db batch = Inr db'"
  shows "wf_store db'"
proof (cases batch)
  case Nil
  with assms show ?thesis by (simp add: validate_and_commit_def split: if_splits)
next
  case (Cons h hs)
  from assms(2) have v: "validate_batch db batch" and c: "commit db batch = Inr db'"
    by (auto simp: validate_and_commit_def split: if_splits)
  from v Cons obtain p where p: "headers db (parent_hash h) = Some p" "linked p batch"
    by (auto simp: validate_batch_def split: option.splits)
  from assms(1) p(1) have "hash p = parent_hash h"
    unfolding wf_store_def wf_headers_def by blast
  with p(1) have "headers db (hash p) = Some p" by simp
  from commit_wf [OF assms(1) this p(2)] c show ?thesis by auto
qed

lemma sync_batches_wf: "wf_store db \<Longrightarrow> wf_store (sync_batches db bs)"
proof (induction bs arbitrary: db)
  case Nil
  then show ?case by simp
next
  case (Cons b bs)
  show ?case
  proof (cases "validate_and_commit db b")
    case (Inl e)
    then show ?thesis using Cons by simp
  next
    case (Inr db')
    from validate_and_commit_wf [OF Cons.prems Inr] Cons.IH Inr show ?thesis by simp
  qed
qed

lemma fresh_store_wf:
  assumes "block_number g = 0" "persist_header empty_store g = Inr db0"
  shows "wf_store db0"
proof -
  from assms have db0: "db0 = set_as_canonical_chain_head
      (empty_store\<lparr>headers := (headers empty_store)(hash g \<mapsto> g),
                   scores := (scores empty_store)(hash g \<mapsto> 0 + difficulty g)\<rparr>) g"
    by (simp add: persist_header_def Let_def empty_store_def)
  have "wf_headers [hash g \<mapsto> g]"
    unfolding wf_headers_def using assms(1) by (auto split: if_splits)
  then show ?thesis
    unfolding db0 wf_store_def set_as_canonical_chain_head_def empty_store_def
    by (auto intro!: exI [of _ g])
qed

lemma wf_store_linked:
  assumes "wf_store db"
  shows "\<exists>hd. get_canonical_head db = Inr hd
           \<and> get_canonical_block_header_by_number db (block_number hd) = Inr hd
           \<and> (\<forall>n. 0 < n \<and> n \<le> block_number hd \<longrightarrow>
                (\<exists>x p. get_canonical_block_header_by_number db n = Inr x
                      \<and> get_canonical_block_header_by_number db (n - 1) = Inr p
                      \<and> parent_hash x = hash p
                      \<and> block_number x = n \<and> block_number p = n - 1))"
proof -
  from assms have wfh: "wf_headers (headers db)" unfolding wf_store_def by blast
  from assms obtain hd where hd: "head_hash db = Some (hash hd)" "headers db (hash hd) = Some hd"
    "canonical db = chain_index (headers db) hd (nat (block_number hd))"
    unfolding wf_store_def by blast
  have hd0: "0 \<le> block_number hd" using wfh hd(2) unfolding wf_headers_def by blast
  then have k: "block_number hd = int (nat (block_number hd))" by simp
  have a: "get_canonical_head db = Inr hd"
    using hd by (simp add: get_canonical_head_def get_block_header_by_hash_def)
  have b: "get_canonical_block_header_by_number db (block_number hd) = Inr hd"
    using hd chain_index_top [of "headers db" hd "nat (block_number hd)"]
    by (simp add: get_canonical_block_header_by_number_def get_block_header_by_hash_def)
  have c: "\<exists>x p. get_canonical_block_header_by_number db n = Inr x
                \<and> get_canonical_block_header_by_number db (n - 1) = Inr p
                \<and> parent_hash x = hash p \<and> block_number x = n \<and> block_number p = n - 1"
    if n: "0 < n" "n \<le> block_number hd" for n
  proof -
    from n(2) k have "n \<le> int (nat (block_number hd))" by simp
    from chain_index_links [OF wfh hd(2) k n(1) this] obtain x p where
      xp: "canonical db n = Some (hash x)" "headers db (hash x) = Some x"
          "canonical db (n - 1) = Some (hash p)" "headers db (hash p) = Some p"
          "parent_hash x = hash p" "block_number x = n" "block_number p = n - 1"
      unfolding hd(3) by blast
    then show ?thesis
      by (intro exI [of _ x] exI [of _ p])
         (simp add: get_canonical_block_header_by_number_def get_block_header_by_hash_def)
  qed
  from a b c show ?thesis by blast
qed

lemma head_after_sync:
  "persist_header empty_store hdr0 = Inr db0 \<Longrightarrow>
   get_canonical_head (sync_batches db0 [ [hdr1, hdr2] ]) = Inr hdr2"
  by (auto simp: persist_header_def Let_def empty_store_def set_as_canonical_chain_head_def
      validate_and_commit_def validate_batch_def commit_header_def get_score_def
      get_canonical_head_def get_block_header_by_hash_def hdr_numbers hdr_parents
      hdr0_def hdr1_def hdr2_def mk_header_def hash_def)

section \<open>Committing a batch twice\<close>

text \<open>
  C5. Committing the same header batch to the Header Store a second time leaves the store as
  the first commit left it: a header whose hash is already present is skipped, so the second
  commit of the batch, and the second validation and commit of it, return the same store.
\<close>

theorem commit_twice_unchanged:
  "(headers db (hash h) \<noteq> None \<longrightarrow> commit_header db h = Inr db)
   \<and> (commit db batch = Inr db' \<longrightarrow> commit db' batch = Inr db')
   \<and> (validate_and_commit db batch = Inr db' \<longrightarrow> validate_and_commit db' batch = Inr db')"
proof (intro conjI impI)
  show "commit_header db h = Inr db" if "headers db (hash h) \<noteq> None"
    using that by (simp add: commit_header_def)
next
  assume c: "commit db batch = Inr db'"
  show "commit db' batch = Inr db'"
    by (rule commit_all_present) (use commit_present [OF c] in blast)
next
  assume v: "validate_and_commit db batch = Inr db'"
  then have vb: "validate_batch db batch" and c: "commit db batch = Inr db'"
    by (auto simp: validate_and_commit_def split: if_splits)
  have "validate_batch db' batch"
    by (rule linked_validate_mono [OF vb]) (use commit_keeps [OF c] in blast)
  moreover have "commit db' batch = Inr db'"
    by (rule commit_all_present) (use commit_present [OF c] in blast)
  ultimately show "validate_and_commit db' batch = Inr db'"
    by (simp add: validate_and_commit_def)
qed

theorem commit_twice_unchanged_witness:
  "\<exists>db db'. persist_header empty_store hdr0 = Inr db
      \<and> validate_and_commit db [hdr1, hdr2] = Inr db'
      \<and> headers db' (hash hdr2) \<noteq> None
      \<and> commit_header db' hdr2 = Inr db'
      \<and> commit db' [hdr1, hdr2] = Inr db'
      \<and> validate_and_commit db' [hdr1, hdr2] = Inr db'"
proof -
  obtain db where db: "persist_header empty_store hdr0 = Inr db"
    using persist_genesis [OF hdr_numbers(1)] by blast
  have wf: "wf_store db" by (rule fresh_store_wf [OF hdr_numbers(1) db])
  have h0: "headers db (hash hdr0) = Some hdr0" using persist_header_adds [OF db] by simp
  have lk: "linked hdr0 [hdr1, hdr2]" by (simp add: hdr_numbers hdr_parents)
  from commit_wf [OF wf h0 lk] obtain db' where c: "commit db [hdr1, hdr2] = Inr db'" by blast
  have v: "validate_and_commit db [hdr1, hdr2] = Inr db'"
    using c h0 lk by (simp add: validate_and_commit_def validate_batch_def hdr_parents)
  have p: "headers db' (hash hdr2) \<noteq> None" by (rule commit_present [OF c]) simp
  from commit_twice_unchanged [of db hdr2 "[hdr1, hdr2]" db']
    commit_twice_unchanged [of db' hdr2 "[hdr1, hdr2]" db'] db v c p
  show ?thesis by blast
qed

section \<open>The canonical chain stays linked\<close>

text \<open>
  C1. Start from a fresh client store, holding a genesis header \<open>g\<close> only, and let any
  sequence of syncs act on it (any sequence of batches, each validated and committed, or
  rejected). The resulting store has a canonical head; the canonical header at the head's
  block number is the head; and for every block number \<open>n\<close> above genesis up to the head,
  the canonical header at \<open>n\<close> has block number \<open>n\<close> and its \<open>parent_hash\<close> is the hash
  of the canonical header at \<open>n - 1\<close>, which has block number \<open>n - 1\<close>.
\<close>

theorem canonical_chain_linked_after_syncs:
  assumes "block_number g = 0"
    and "persist_header empty_store g = Inr db0"
    and "db = sync_batches db0 batches"
  shows "\<exists>hd. get_canonical_head db = Inr hd
           \<and> get_canonical_block_header_by_number db (block_number hd) = Inr hd
           \<and> (\<forall>n. 0 < n \<and> n \<le> block_number hd \<longrightarrow>
                (\<exists>x p. get_canonical_block_header_by_number db n = Inr x
                      \<and> get_canonical_block_header_by_number db (n - 1) = Inr p
                      \<and> parent_hash x = hash p
                      \<and> block_number x = n \<and> block_number p = n - 1))"
  unfolding assms(3)
  by (rule wf_store_linked [OF sync_batches_wf [OF fresh_store_wf [OF assms(1,2)]]])

theorem canonical_chain_linked_after_syncs_witness:
  "block_number hdr0 = 0
   \<and> (\<exists>db0 x p. persist_header empty_store hdr0 = Inr db0
        \<and> get_canonical_head (sync_batches db0 [ [hdr1, hdr2] ]) = Inr hdr2
        \<and> get_canonical_block_header_by_number (sync_batches db0 [ [hdr1, hdr2] ]) 2 = Inr x
        \<and> get_canonical_block_header_by_number (sync_batches db0 [ [hdr1, hdr2] ]) 1 = Inr p
        \<and> parent_hash x = hash p \<and> block_number x = 2 \<and> block_number p = 1)"
proof -
  obtain db0 where db0: "persist_header empty_store hdr0 = Inr db0"
    using persist_genesis [OF hdr_numbers(1)] by blast
  let ?db = "sync_batches db0 [ [hdr1, hdr2] ]"
  have hd: "get_canonical_head ?db = Inr hdr2" by (rule head_after_sync [OF db0])
  from canonical_chain_linked_after_syncs [OF hdr_numbers(1) db0 refl, of "[ [hdr1, hdr2] ]"]
  have "\<forall>n. 0 < n \<and> n \<le> block_number hdr2 \<longrightarrow>
          (\<exists>x p. get_canonical_block_header_by_number ?db n = Inr x
                \<and> get_canonical_block_header_by_number ?db (n - 1) = Inr p
                \<and> parent_hash x = hash p \<and> block_number x = n \<and> block_number p = n - 1)"
    unfolding hd by auto
  then have "\<exists>x p. get_canonical_block_header_by_number ?db 2 = Inr x
                \<and> get_canonical_block_header_by_number ?db (2 - 1) = Inr p
                \<and> parent_hash x = hash p \<and> block_number x = 2 \<and> block_number p = 2 - 1"
    using hdr_numbers(3) by (metis order_refl zero_less_numeral)
  then show ?thesis using hdr_numbers(1) db0 hd by auto
qed

section \<open>Stores that hold a chain\<close>



















section \<open>A sync against the serving peer\<close>
















section \<open>Incremental header sync\<close>



section \<open>A competing head\<close>
















section \<open>Full header sync and reorg\<close>




section \<open>A second peer\<close>





section \<open>Header sync with two peers\<close>


end
